theory Spec2Isabelle
  imports Main "HOL-Library.Char_ord" "HOL-Library.List_Lexorder" "HOL-Library.FSet"
begin

section \<open>Python strings\<close>

text \<open>
  A Python \<open>str\<close> is a sequence of code points. The model is \<^typ>\<open>string\<close>, and a
  \<^typ>\<open>char\<close> is read as the code point of the same number, so the model covers exactly
  the strings whose code points are below 256. On that range \<open>str.isspace\<close> holds
  for U+0009..U+000D, U+001C..U+0020, U+0085 and U+00A0, and \<open>str.lower\<close> moves
  A..Z and U+00C0..U+00DE (the multiplication sign U+00D7 apart) up by 32.
  The order on strings is the lexicographic order on code points, as Python compares
  \<open>str\<close> values.
\<close>

definition isspace :: "char \<Rightarrow> bool" where
  "isspace c =
     (let n = (of_char c :: nat)
      in (9 \<le> n \<and> n \<le> 13) \<or> (28 \<le> n \<and> n \<le> 32) \<or> n = 133 \<or> n = 160)"

definition lower_char :: "char \<Rightarrow> char" where
  "lower_char c =
     (let n = (of_char c :: nat)
      in if (65 \<le> n \<and> n \<le> 90) \<or> (192 \<le> n \<and> n \<le> 222 \<and> n \<noteq> 215)
         then char_of (n + 32) else c)"

definition py_lower :: "string \<Rightarrow> string" where
  \<comment> \<open>\<open>s.lower()\<close>\<close>
  "py_lower s = map lower_char s"

definition py_lstrip_ws :: "string \<Rightarrow> string" where
  "py_lstrip_ws s = dropWhile isspace s"

definition py_rstrip_ws :: "string \<Rightarrow> string" where
  "py_rstrip_ws s = rev (dropWhile isspace (rev s))"

definition py_strip :: "string \<Rightarrow> string" where
  \<comment> \<open>\<open>s.strip()\<close>: whitespace removed at both ends\<close>
  "py_strip s = py_rstrip_ws (py_lstrip_ws s)"

definition py_lstrip :: "string \<Rightarrow> string \<Rightarrow> string" where
  \<comment> \<open>\<open>s.lstrip(chars)\<close>: the longest prefix made of characters of \<open>chars\<close> is removed\<close>
  "py_lstrip chars s = dropWhile (\<lambda>c. c \<in> set chars) s"

definition truthy :: "string \<Rightarrow> bool" where
  \<comment> \<open>the truth value of a \<open>str\<close> in a condition\<close>
  "truthy s = (s \<noteq> [])"

section \<open>Parsed JSON\<close>

text \<open>
  What \<open>json.loads\<close> returns. \<open>JNull\<close> is Python's \<open>None\<close>. A \<open>dict\<close> is the list
  of its items in insertion order, which is the order \<open>values()\<close> enumerates; the
  program never looks inside a number.
\<close>

datatype json =
    JNull
  | JBool bool
  | JInt int
  | JFloat string
  | JStr string
  | JList "json list"
  | JDict "(string \<times> json) list"

type_synonym dict = "(string \<times> json) list"

definition dict_get :: "dict \<Rightarrow> string \<Rightarrow> json" where
  \<comment> \<open>\<open>d.get(key)\<close>: \<open>None\<close> when the key is absent\<close>
  "dict_get d key = (case map_of d key of None \<Rightarrow> JNull | Some v \<Rightarrow> v)"

definition dict_values :: "dict \<Rightarrow> json list" where
  "dict_values d = map snd d"

fun is_list :: "json \<Rightarrow> bool" where
  "is_list (JList _) = True"
| "is_list _ = False"

fun is_dict :: "json \<Rightarrow> bool" where
  "is_dict (JDict _) = True"
| "is_dict _ = False"

section \<open>The extractor\<close>

fun dicts_of :: "json list \<Rightarrow> dict list" where
  \<comment> \<open>\<open>[item for item in xs if isinstance(item, dict)]\<close>\<close>
  "dicts_of [] = []"
| "dicts_of (JDict d # xs) = d # dicts_of xs"
| "dicts_of (_ # xs) = dicts_of xs"

definition common_keys :: "string list" where
  "common_keys =
     [''relationships_following'', ''relationships_followers'', ''following'', ''followers'']"

fun probe_keys :: "dict \<Rightarrow> string list \<Rightarrow> json list option" where
  \<comment> \<open>the loop over \<open>common_keys\<close>: the first key whose value is a list\<close>
  "probe_keys data [] = None"
| "probe_keys data (key # keys) =
     (case dict_get data key of
        JList v \<Rightarrow> Some v
      | _ \<Rightarrow> probe_keys data keys)"

fun first_list_value :: "json list \<Rightarrow> json list option" where
  \<comment> \<open>the loop over \<open>data.values()\<close>\<close>
  "first_list_value [] = None"
| "first_list_value (JList v # _) = Some v"
| "first_list_value (_ # vs) = first_list_value vs"

fun extract_candidates :: "json \<Rightarrow> dict list" where
  "extract_candidates (JList xs) = dicts_of xs"
| "extract_candidates (JDict d) =
     (case probe_keys d common_keys of
        Some v \<Rightarrow> dicts_of v
      | None \<Rightarrow>
          (case first_list_value (dict_values d) of
             Some v \<Rightarrow> dicts_of v
           | None \<Rightarrow> []))"
| "extract_candidates _ = []"

section \<open>Usernames\<close>

definition normalize_username :: "string \<Rightarrow> string" where
  "normalize_username username = py_lower (py_lstrip ''@'' (py_strip username))"

fun accepted :: "json \<Rightarrow> string option" where
  \<comment> \<open>\<open>isinstance(value, str) and value.strip()\<close>\<close>
  "accepted (JStr v) = (if truthy (py_strip v) then Some v else None)"
| "accepted _ = None"

fun string_list_value :: "json \<Rightarrow> string option" where
  \<comment> \<open>the branch on \<open>item.get("string_list_data")\<close>: the value accepted from its first element\<close>
  "string_list_value (JList (JDict first # _)) = accepted (dict_get first ''value'')"
| "string_list_value _ = None"

fun flat_value :: "dict \<Rightarrow> string list \<Rightarrow> string option" where
  \<comment> \<open>the loop over \<open>("username", "value")\<close>, left at the first accepted value\<close>
  "flat_value item [] = None"
| "flat_value item (key # keys) =
     (case accepted (dict_get item key) of
        Some v \<Rightarrow> Some v
      | None \<Rightarrow> flat_value item keys)"

definition record_value :: "dict \<Rightarrow> string option" where
  \<comment> \<open>the string one candidate contributes, before normalization\<close>
  "record_value item =
     (case string_list_value (dict_get item ''string_list_data'') of
        Some v \<Rightarrow> Some v
      | None \<Rightarrow> flat_value item [''username'', ''value''])"

fun collect_usernames :: "dict list \<Rightarrow> string fset \<Rightarrow> string fset" where
  \<comment> \<open>the loop over the candidates, with the set \<open>usernames\<close> as its state\<close>
  "collect_usernames [] usernames = usernames"
| "collect_usernames (item # items) usernames =
     collect_usernames items
       (case record_value item of
          Some v \<Rightarrow> finsert (normalize_username v) usernames
        | None \<Rightarrow> usernames)"

definition usernames_of :: "json \<Rightarrow> string fset" where
  \<comment> \<open>\<open>load_usernames\<close> from the parsed document on\<close>
  "usernames_of data = collect_usernames (extract_candidates data) {||}"

section \<open>Files and the program\<close>

text \<open>
  The working directory maps a file name to the text of the file; every file in it is
  a readable text file. \<open>json.loads\<close> and the row formatter of \<open>csv.writer\<close> are
  parameters: \<open>loads\<close> returns \<open>None\<close> where \<open>json.loads\<close> raises. Standard output is
  not modelled.
\<close>

type_synonym files = "string \<rightharpoonup> string"

datatype exn = SystemExit string | JSONDecodeError | FileNotFoundError string

definition DEFAULT_FOLLOWERS_FILE :: string where
  "DEFAULT_FOLLOWERS_FILE = ''followers.json''"

definition DEFAULT_FOLLOWING_FILE :: string where
  "DEFAULT_FOLLOWING_FILE = ''following.json''"

definition OUTPUT_FILE :: string where
  "OUTPUT_FILE = ''not_following_back.csv''"

definition load_usernames :: "(string \<Rightarrow> json option) \<Rightarrow> files \<Rightarrow> string \<Rightarrow> exn + string fset" where
  "load_usernames loads fs path =
     (case fs path of
        None \<Rightarrow> Inl (FileNotFoundError path)
      | Some text \<Rightarrow>
          (case loads text of
             None \<Rightarrow> Inl JSONDecodeError
           | Some data \<Rightarrow> Inr (usernames_of data)))"

definition write_csv :: "(string list \<Rightarrow> string) \<Rightarrow> files \<Rightarrow> string \<Rightarrow> string list \<Rightarrow> files" where
  "write_csv writerow fs path usernames =
     fs(path \<mapsto> writerow [''username''] @ concat (map (\<lambda>username. writerow [username]) usernames))"

definition not_following_back :: "string fset \<Rightarrow> string fset \<Rightarrow> string list" where
  \<comment> \<open>\<open>sorted(following - followers)\<close>\<close>
  "not_following_back following followers = sorted_list_of_fset (following |-| followers)"

definition missing_message :: "string \<Rightarrow> string" where
  "missing_message name = ''Missing '' @ name @ ''. Put it next to this script.''"

definition main :: "(string \<Rightarrow> json option) \<Rightarrow> (string list \<Rightarrow> string) \<Rightarrow> files \<Rightarrow> (exn + unit) \<times> files" where
  "main loads writerow fs =
     (if fs DEFAULT_FOLLOWERS_FILE = None then
        (Inl (SystemExit (missing_message DEFAULT_FOLLOWERS_FILE)), fs)
      else if fs DEFAULT_FOLLOWING_FILE = None then
        (Inl (SystemExit (missing_message DEFAULT_FOLLOWING_FILE)), fs)
      else
        (case load_usernames loads fs DEFAULT_FOLLOWERS_FILE of
           Inl e \<Rightarrow> (Inl e, fs)
         | Inr followers \<Rightarrow>
             (case load_usernames loads fs DEFAULT_FOLLOWING_FILE of
                Inl e \<Rightarrow> (Inl e, fs)
              | Inr following \<Rightarrow>
                  (Inr (), write_csv writerow fs OUTPUT_FILE (not_following_back following followers)))))"

fun exit_status :: "exn + unit \<Rightarrow> nat" where
  \<comment> \<open>the interpreter's exit status: 0 when \<open>main\<close> returns, 1 for \<open>SystemExit\<close> with a
      message and for an exception nobody catches\<close>
  "exit_status (Inr _) = 0"
| "exit_status (Inl _) = 1"

section \<open>Predicates used in the statements\<close>

fun starts_with_space :: "string \<Rightarrow> bool" where
  "starts_with_space [] = False"
| "starts_with_space (c # _) = isspace c"

definition spec_normalize :: "string \<Rightarrow> string" where
  \<comment> \<open>normalization as the specification words it: trim, strip at most one leading
      \<open>@\<close>, lowercase; kept apart from \<open>normalize_username\<close> for comparison\<close>
  "spec_normalize s =
     py_lower (case py_strip s of [] \<Rightarrow> [] | c # cs \<Rightarrow> if c = CHR ''@'' then cs else c # cs)"

section \<open>Characters and trimming\<close>


lemma of_char_lower_char:
  "(of_char (lower_char c) :: nat) =
     (if (65 \<le> (of_char c :: nat) \<and> (of_char c :: nat) \<le> 90)
         \<or> (192 \<le> (of_char c :: nat) \<and> (of_char c :: nat) \<le> 222 \<and> (of_char c :: nat) \<noteq> 215)
      then of_char c + 32 else of_char c)"
  by (simp add: lower_char_def Let_def)

lemma isspace_lower_char: "isspace (lower_char c) = isspace c"
  unfolding isspace_def Let_def of_char_lower_char by auto

lemma lower_char_idem: "lower_char (lower_char c) = lower_char c"
proof -
  have "(of_char (lower_char (lower_char c)) :: nat) = of_char (lower_char c)"
    unfolding of_char_lower_char [of "lower_char c"] unfolding of_char_lower_char [of c] by auto
  then show ?thesis by (rule of_char_eqI)
qed

lemma at_code: "(of_char CHR ''@'' :: nat) = 64"
  by simp

lemma lower_char_at: "lower_char c = CHR ''@'' \<longleftrightarrow> c = CHR ''@''"
proof
  assume "lower_char c = CHR ''@''"
  then have "(of_char (lower_char c) :: nat) = 64" by simp
  then have "(of_char c :: nat) = 64"
    unfolding of_char_lower_char by (auto split: if_splits)
  then have "(of_char c :: nat) = of_char CHR ''@''" by simp
  then show "c = CHR ''@''" by (rule of_char_eqI)
next
  assume "c = CHR ''@''"
  then show "lower_char c = CHR ''@''" by (simp add: lower_char_def)
qed

lemma not_isspace_at: "\<not> isspace CHR ''@''"
  by (simp add: isspace_def)


lemma py_rstrip_ws_split: "py_rstrip_ws t @ rev (takeWhile isspace (rev t)) = t"
proof -
  have "rev (takeWhile isspace (rev t) @ dropWhile isspace (rev t)) = t"
    by (simp only: takeWhile_dropWhile_id rev_rev_ident)
  then show ?thesis by (simp only: rev_append py_rstrip_ws_def)
qed

lemma py_strip_split:
  "s = takeWhile isspace s @ py_strip s @ rev (takeWhile isspace (rev (py_lstrip_ws s)))"
proof -
  have "s = takeWhile isspace s @ py_lstrip_ws s"
    by (simp only: py_lstrip_ws_def takeWhile_dropWhile_id)
  also have "py_lstrip_ws s = py_strip s @ rev (takeWhile isspace (rev (py_lstrip_ws s)))"
    by (simp only: py_strip_def py_rstrip_ws_split)
  finally show ?thesis .
qed

lemma py_rstrip_ws_last: "py_rstrip_ws t \<noteq> [] \<Longrightarrow> \<not> isspace (last (py_rstrip_ws t))"
proof -
  assume ne: "py_rstrip_ws t \<noteq> []"
  let ?r = "dropWhile isspace (rev t)"
  from ne have r: "?r \<noteq> []" by (simp only: py_rstrip_ws_def rev_is_Nil_conv not_False_eq_True)
  then have "\<not> isspace (hd ?r)" by (rule hd_dropWhile)
  moreover have "last (rev ?r) = hd ?r" using r by (simp only: last_rev)
  ultimately show ?thesis by (simp add: py_rstrip_ws_def last_rev)
qed

lemma py_strip_last: "py_strip s \<noteq> [] \<Longrightarrow> \<not> isspace (last (py_strip s))"
  unfolding py_strip_def by (rule py_rstrip_ws_last)

lemma py_strip_hd: "py_strip s \<noteq> [] \<Longrightarrow> \<not> isspace (hd (py_strip s))"
proof -
  assume ne: "py_strip s \<noteq> []"
  let ?t = "py_lstrip_ws s"
  have t: "py_strip s @ rev (takeWhile isspace (rev ?t)) = ?t"
    by (simp only: py_strip_def py_rstrip_ws_split)
  with ne have tne: "?t \<noteq> []" by (metis append_is_Nil_conv)
  then have "\<not> isspace (hd ?t)" unfolding py_lstrip_ws_def by (rule hd_dropWhile)
  moreover have "hd ?t = hd (py_strip s)" using ne t by (metis hd_append2)
  ultimately show ?thesis by simp
qed

lemma py_lstrip_at: "py_lstrip ''@'' s = dropWhile (\<lambda>c. c = CHR ''@'') s"
  by (simp add: py_lstrip_def)

lemma takeWhile_at:
  "takeWhile (\<lambda>c. c = CHR ''@'') s = replicate (length (takeWhile (\<lambda>c. c = CHR ''@'') s)) CHR ''@''"
  by (induction s) auto

lemma dropWhile_last: "dropWhile P xs \<noteq> [] \<Longrightarrow> last (dropWhile P xs) = last xs"
  by (induction xs) (auto split: if_splits)

lemma py_strip_fixed:
  assumes "\<not> starts_with_space r" and "r \<noteq> [] \<Longrightarrow> \<not> isspace (last r)"
  shows "py_strip r = r"
proof (cases r)
  case Nil
  then show ?thesis by (simp add: py_strip_def py_rstrip_ws_def py_lstrip_ws_def)
next
  case (Cons c cs)
  with assms(1) have l: "py_lstrip_ws r = r" by (simp add: py_lstrip_ws_def)
  from Cons assms(2) have "\<not> isspace (last r)" by simp
  moreover have "hd (rev r) = last r" by (rule hd_rev)
  ultimately have h: "\<not> isspace (hd (rev r))" by simp
  obtain a as where ra: "rev r = a # as" using Cons by (cases "rev r") auto
  from h have "\<not> isspace a" by (simp add: ra)
  then have "dropWhile isspace (rev r) = rev r" by (simp add: ra)
  then show ?thesis by (simp add: py_strip_def py_rstrip_ws_def l)
qed

lemma normalize_username_last:
  "normalize_username s \<noteq> [] \<Longrightarrow> \<not> isspace (last (normalize_username s))"
proof -
  assume ne: "normalize_username s \<noteq> []"
  let ?u = "py_strip s"
  let ?b = "dropWhile (\<lambda>c. c = CHR ''@'') ?u"
  from ne have b: "?b \<noteq> []" by (simp add: normalize_username_def py_lower_def py_lstrip_at)
  then have u: "?u \<noteq> []" by auto
  have "last ?b = last ?u" using b by (rule dropWhile_last)
  with py_strip_last [OF u] have "\<not> isspace (last ?b)" by simp
  moreover have "last (normalize_username s) = lower_char (last ?b)"
    using b by (simp add: normalize_username_def py_lower_def py_lstrip_at last_map)
  ultimately show ?thesis by (simp add: isspace_lower_char)
qed

lemma normalize_username_hd:
  "normalize_username s \<noteq> [] \<Longrightarrow> hd (normalize_username s) \<noteq> CHR ''@''"
proof -
  assume ne: "normalize_username s \<noteq> []"
  let ?b = "dropWhile (\<lambda>c. c = CHR ''@'') (py_strip s)"
  from ne have b: "?b \<noteq> []" by (simp add: normalize_username_def py_lower_def py_lstrip_at)
  then have "hd ?b \<noteq> CHR ''@''" by (rule hd_dropWhile)
  moreover have "hd (normalize_username s) = lower_char (hd ?b)"
    using b by (simp add: normalize_username_def py_lower_def py_lstrip_at hd_map)
  ultimately show ?thesis by (simp add: lower_char_at)
qed

lemma normalize_username_lower: "py_lower (normalize_username s) = normalize_username s"
  by (simp add: normalize_username_def py_lower_def lower_char_idem)

lemma normalize_username_length: "length (normalize_username s) \<le> length (py_lstrip_ws s)"
proof -
  have "length (normalize_username s) \<le> length (py_strip s)"
    by (simp add: normalize_username_def py_lower_def py_lstrip_at length_dropWhile_le)
  also have "\<dots> \<le> length (py_lstrip_ws s)"
    using length_dropWhile_le [of isspace "rev (py_lstrip_ws s)"]
    by (simp add: py_strip_def py_rstrip_ws_def)
  finally show ?thesis .
qed

lemma list_all_takeWhile: "list_all P (takeWhile P xs)"
  by (induction xs) auto

section \<open>Normalization\<close>

text \<open>
  C1 (as amended). Every string splits into leading whitespace, a run of \<open>@\<close>, a body
  and trailing whitespace, where the body does not begin with \<open>@\<close>, does not end with
  whitespace and, when the run of \<open>@\<close> is empty, does not begin with whitespace;
  \<open>normalize_username\<close> returns the body with every letter lowercased. So the whole
  run of leading \<open>@\<close> is removed, not one character of it. The three strings of the
  specification's example all normalize to \<open>user\<close>.
\<close>

theorem normalize_username_shape:
  "(\<exists>lead n body trail.
      s = lead @ replicate n CHR ''@'' @ body @ trail
    \<and> list_all isspace lead \<and> list_all isspace trail
    \<and> (body \<noteq> [] \<longrightarrow>
          hd body \<noteq> CHR ''@'' \<and> \<not> isspace (last body) \<and> (n = 0 \<longrightarrow> \<not> isspace (hd body)))
    \<and> normalize_username s = map lower_char body)
   \<and> normalize_username '' @User '' = ''user''
   \<and> normalize_username ''user'' = ''user''
   \<and> normalize_username ''USER'' = ''user''"
proof -
  let ?at = "\<lambda>c. c = CHR ''@''"
  let ?u = "py_strip s"
  let ?lead = "takeWhile isspace s"
  let ?trail = "rev (takeWhile isspace (rev (py_lstrip_ws s)))"
  let ?n = "length (takeWhile ?at ?u)"
  let ?body = "dropWhile ?at ?u"
  have u: "?u = replicate ?n CHR ''@'' @ ?body"
    using takeWhile_at [of ?u] takeWhile_dropWhile_id [of ?at ?u] by simp
  have "s = ?lead @ ?u @ ?trail" by (rule py_strip_split)
  with u have split: "s = ?lead @ replicate ?n CHR ''@'' @ ?body @ ?trail"
    by (metis append.assoc)
  have lead: "list_all isspace ?lead" by (rule list_all_takeWhile)
  have trail: "list_all isspace ?trail"
    using list_all_takeWhile [of isspace "rev (py_lstrip_ws s)"] by (simp add: list_all_iff)
  have body: "hd ?body \<noteq> CHR ''@'' \<and> \<not> isspace (last ?body) \<and> (?n = 0 \<longrightarrow> \<not> isspace (hd ?body))"
    if ne: "?body \<noteq> []"
  proof -
    from ne have une: "?u \<noteq> []" by auto
    have "hd ?body \<noteq> CHR ''@''" using ne by (rule hd_dropWhile)
    moreover have "\<not> isspace (last ?body)"
      using dropWhile_last [OF ne] py_strip_last [OF une] by simp
    moreover have "\<not> isspace (hd ?body)" if "?n = 0"
    proof -
      from that have "takeWhile ?at ?u = []" by simp
      with takeWhile_dropWhile_id [of ?at ?u] have "?body = ?u" by simp
      with py_strip_hd [OF une] show ?thesis by simp
    qed
    ultimately show ?thesis by blast
  qed
  have res: "normalize_username s = map lower_char ?body"
    by (simp add: normalize_username_def py_lower_def py_lstrip_at)
  have ex: "\<exists>lead n body trail.
      s = lead @ replicate n CHR ''@'' @ body @ trail
    \<and> list_all isspace lead \<and> list_all isspace trail
    \<and> (body \<noteq> [] \<longrightarrow>
          hd body \<noteq> CHR ''@'' \<and> \<not> isspace (last body) \<and> (n = 0 \<longrightarrow> \<not> isspace (hd body)))
    \<and> normalize_username s = map lower_char body"
    using split lead trail body res by blast
  have e1: "normalize_username '' @User '' = ''user''" by code_simp
  have e2: "normalize_username ''user'' = ''user''" by code_simp
  have e3: "normalize_username ''USER'' = ''user''" by code_simp
  from ex e1 e2 e3 show ?thesis by blast
qed

theorem normalize_username_shape_witness:
  "(\<exists>lead n body trail.
      ''  @@Ab c  '' = lead @ replicate n CHR ''@'' @ body @ trail
    \<and> list_all isspace lead \<and> list_all isspace trail
    \<and> body \<noteq> [] \<and> hd body \<noteq> CHR ''@'' \<and> \<not> isspace (last body)
    \<and> normalize_username ''  @@Ab c  '' = map lower_char body)
   \<and> normalize_username ''  @@Ab c  '' = ''ab c''"
proof -
  have v: "normalize_username ''  @@Ab c  '' = ''ab c''" by code_simp
  from normalize_username_shape [of "''  @@Ab c  ''"] obtain lead n body trail where
    d: "''  @@Ab c  '' = lead @ replicate n CHR ''@'' @ body @ trail"
    and ws: "list_all isspace lead" "list_all isspace trail"
    and b: "body \<noteq> [] \<longrightarrow>
          hd body \<noteq> CHR ''@'' \<and> \<not> isspace (last body) \<and> (n = 0 \<longrightarrow> \<not> isspace (hd body))"
    and r: "normalize_username ''  @@Ab c  '' = map lower_char body"
    by blast
  from r v have "body \<noteq> []" by auto
  with d ws b r v show ?thesis by blast
qed

text \<open>
  C1 (as stated) fails: of the two leading \<open>@\<close> of \<open>@@user\<close> the code removes both,
  where stripping at most one leaves \<open>@user\<close>.
\<close>

theorem normalize_username_strips_every_at:
  "normalize_username ''@@user'' = ''user'' \<and> spec_normalize ''@@user'' = ''@user''"
  by code_simp

text \<open>
  C2 (as amended). Normalizing twice gives the same string as normalizing once exactly
  when the normalized string does not begin with a whitespace character. The leading
  \<open>@\<close>s are removed after the trimming, so whitespace that follows them survives the
  first pass and is trimmed by the second.
\<close>

theorem normalize_username_idempotent_iff:
  "normalize_username (normalize_username s) = normalize_username s
     \<longleftrightarrow> \<not> starts_with_space (normalize_username s)"
proof
  let ?r = "normalize_username s"
  assume eq: "normalize_username ?r = ?r"
  show "\<not> starts_with_space ?r"
  proof
    assume sp: "starts_with_space ?r"
    then obtain c cs where r: "?r = c # cs" and c: "isspace c" by (cases ?r) auto
    have "length (py_lstrip_ws ?r) \<le> length cs"
      using c by (simp add: r py_lstrip_ws_def length_dropWhile_le)
    with normalize_username_length [of ?r] have "length (normalize_username ?r) < length ?r"
      by (simp add: r)
    with eq show False by simp
  qed
next
  let ?r = "normalize_username s"
  assume nsp: "\<not> starts_with_space ?r"
  have strip: "py_strip ?r = ?r"
    using nsp normalize_username_last by (rule py_strip_fixed)
  have "dropWhile (\<lambda>c. c = CHR ''@'') ?r = ?r"
    using normalize_username_hd [of s] by (cases ?r) auto
  then show "normalize_username ?r = ?r"
    using normalize_username_lower [of s]
    by (simp add: normalize_username_def [of ?r] strip py_lstrip_at)
qed

theorem normalize_username_idempotent_iff_witness:
  "normalize_username (normalize_username '' @User '') = normalize_username '' @User ''
   \<and> \<not> starts_with_space (normalize_username '' @User '')"
proof -
  have "\<not> starts_with_space (normalize_username '' @User '')" by code_simp
  then show ?thesis
    using normalize_username_idempotent_iff [of "'' @User ''"] by simp
qed

text \<open>
  C2 (as stated) fails: \<open>"@ x"\<close> normalizes to \<open>" x"\<close>, which normalizes to \<open>"x"\<close>.
\<close>

theorem normalize_username_not_idempotent:
  "normalize_username (normalize_username ''@ x'') \<noteq> normalize_username ''@ x''"
  by code_simp

section \<open>The extractor's three shapes\<close>

lemma dicts_of_filter: "map JDict (dicts_of xs) = filter is_dict xs"
  by (induction xs rule: dicts_of.induct) auto

lemma probe_keys_hit: "dict_get d k = JList xs \<Longrightarrow> probe_keys d (k # ks) = Some xs"
  by simp

lemma probe_keys_skip: "\<not> is_list (dict_get d k) \<Longrightarrow> probe_keys d (k # ks) = probe_keys d ks"
  by (cases "dict_get d k") auto

lemma probe_keys_none: "(\<forall>k \<in> set ks. \<not> is_list (dict_get d k)) \<Longrightarrow> probe_keys d ks = None"
  by (induction ks) (auto simp: probe_keys_skip simp del: probe_keys.simps(2))

lemma first_list_value_skip: "\<not> is_list v \<Longrightarrow> first_list_value (v # vs) = first_list_value vs"
  by (cases v) auto

lemma first_list_value_hit:
  "(\<forall>v \<in> set vs. \<not> is_list v) \<Longrightarrow> first_list_value (vs @ JList xs # rest) = Some xs"
  by (induction vs) (auto simp: first_list_value_skip)

lemma first_list_value_none: "(\<forall>v \<in> set vs. \<not> is_list v) \<Longrightarrow> first_list_value vs = None"
  by (induction vs) (auto simp: first_list_value_skip)

lemma dict_get_cases: "dict_get d k = JNull \<or> dict_get d k \<in> set (dict_values d)"
proof (cases "map_of d k")
  case None
  then show ?thesis by (simp add: dict_get_def)
next
  case (Some v)
  then have "(k, v) \<in> set d" by (rule map_of_SomeD)
  then have "v \<in> set (dict_values d)" by (force simp: dict_values_def)
  with Some show ?thesis by (simp add: dict_get_def)
qed

lemma dict_get_not_list: "(\<forall>v \<in> set (dict_values d). \<not> is_list v) \<Longrightarrow> \<not> is_list (dict_get d k)"
  using dict_get_cases [of d k] by auto

text \<open>
  C5. On a document that is a list, \<open>extract_candidates\<close> returns exactly the elements
  that are dicts, in their order: wrapped again as JSON values they are the list
  filtered by \<open>is_dict\<close>.
\<close>

theorem extract_candidates_list:
  "map JDict (extract_candidates (JList xs)) = filter is_dict xs"
  by (simp add: dicts_of_filter)

text \<open>
  C4. On a document that is a dict, the keys \<open>relationships_following\<close>,
  \<open>relationships_followers\<close>, \<open>following\<close>, \<open>followers\<close> are probed in this order, and
  the dict elements of the first one whose value is a list are returned, whatever the
  other entries of the dict are and wherever they stand.
\<close>

theorem extract_candidates_priority:
  "(dict_get d ''relationships_following'' = JList xs
      \<longrightarrow> map JDict (extract_candidates (JDict d)) = filter is_dict xs)
   \<and> (\<not> is_list (dict_get d ''relationships_following'')
      \<and> dict_get d ''relationships_followers'' = JList xs
      \<longrightarrow> map JDict (extract_candidates (JDict d)) = filter is_dict xs)
   \<and> (\<not> is_list (dict_get d ''relationships_following'')
      \<and> \<not> is_list (dict_get d ''relationships_followers'')
      \<and> dict_get d ''following'' = JList xs
      \<longrightarrow> map JDict (extract_candidates (JDict d)) = filter is_dict xs)
   \<and> (\<not> is_list (dict_get d ''relationships_following'')
      \<and> \<not> is_list (dict_get d ''relationships_followers'')
      \<and> \<not> is_list (dict_get d ''following'')
      \<and> dict_get d ''followers'' = JList xs
      \<longrightarrow> map JDict (extract_candidates (JDict d)) = filter is_dict xs)"
proof -
  have found: "map JDict (extract_candidates (JDict d)) = filter is_dict xs"
    if "probe_keys d common_keys = Some xs"
    using that by (simp add: dicts_of_filter)
  show ?thesis
    by (intro conjI impI found)
       (simp_all add: common_keys_def probe_keys_hit probe_keys_skip del: probe_keys.simps(2))
qed

theorem extract_candidates_priority_witness:
  "dict_get [(''other'', JList [JDict [(''username'', JStr ''wrong'')]]),
             (''followers'', JList [JDict [(''username'', JStr ''late'')]]),
             (''relationships_following'', JList [JInt 1, JDict [(''username'', JStr ''x'')], JDict []])]
      ''relationships_following'' = JList [JInt 1, JDict [(''username'', JStr ''x'')], JDict []]
   \<and> extract_candidates (JDict
            [(''other'', JList [JDict [(''username'', JStr ''wrong'')]]),
             (''followers'', JList [JDict [(''username'', JStr ''late'')]]),
             (''relationships_following'', JList [JInt 1, JDict [(''username'', JStr ''x'')], JDict []])])
       = [[(''username'', JStr ''x'')], []]
   \<and> \<not> is_list (dict_get [(''other'', JList []), (''relationships_following'', JStr ''n''),
             (''following'', JList [JDict [(''value'', JStr ''y'')]])] ''relationships_following'')
   \<and> \<not> is_list (dict_get [(''other'', JList []), (''relationships_following'', JStr ''n''),
             (''following'', JList [JDict [(''value'', JStr ''y'')]])] ''relationships_followers'')
   \<and> extract_candidates (JDict [(''other'', JList []), (''relationships_following'', JStr ''n''),
             (''following'', JList [JDict [(''value'', JStr ''y'')]])])
       = [[(''value'', JStr ''y'')]]"
proof -
  let ?d1 = "[(''other'', JList [JDict [(''username'', JStr ''wrong'')]]),
             (''followers'', JList [JDict [(''username'', JStr ''late'')]]),
             (''relationships_following'', JList [JInt 1, JDict [(''username'', JStr ''x'')], JDict []])]"
  let ?x1 = "[JInt 1, JDict [(''username'', JStr ''x'')], JDict []]"
  let ?d2 = "[(''other'', JList []), (''relationships_following'', JStr ''n''),
             (''following'', JList [JDict [(''value'', JStr ''y'')]])]"
  let ?x2 = "[JDict [(''value'', JStr ''y'')]]"
  have h1: "dict_get ?d1 ''relationships_following'' = JList ?x1"
    by (simp add: dict_get_def)
  have h2: "\<not> is_list (dict_get ?d2 ''relationships_following'')"
    "\<not> is_list (dict_get ?d2 ''relationships_followers'')"
    "dict_get ?d2 ''following'' = JList ?x2"
    by (simp_all add: dict_get_def)
  from h1 extract_candidates_priority [of ?d1 ?x1]
  have "map JDict (extract_candidates (JDict ?d1)) = filter is_dict ?x1" by blast
  then have r1: "extract_candidates (JDict ?d1) = [[(''username'', JStr ''x'')], []]"
    by (simp add: map_eq_Cons_conv)
  from h2 extract_candidates_priority [of ?d2 ?x2]
  have "map JDict (extract_candidates (JDict ?d2)) = filter is_dict ?x2" by blast
  then have r2: "extract_candidates (JDict ?d2) = [[(''value'', JStr ''y'')]]"
    by (simp add: map_eq_Cons_conv)
  from h1 h2 r1 r2 show ?thesis by blast
qed

text \<open>
  C6. On a dict where none of the four known keys holds a list, the dict elements of the
  first list among the values, in enumeration order, are returned. A dict with no list
  among its values, and a document that is neither a list nor a dict, give the empty
  list. \<open>extract_candidates\<close> is a total function into lists: it has no error result.
\<close>

theorem extract_candidates_fallback:
  "(\<not> is_list (dict_get d ''relationships_following'')
      \<and> \<not> is_list (dict_get d ''relationships_followers'')
      \<and> \<not> is_list (dict_get d ''following'')
      \<and> \<not> is_list (dict_get d ''followers'')
      \<and> d = before @ (key, JList xs) # rest
      \<and> (\<forall>v \<in> set (dict_values before). \<not> is_list v)
      \<longrightarrow> map JDict (extract_candidates (JDict d)) = filter is_dict xs)
   \<and> ((\<forall>v \<in> set (dict_values d). \<not> is_list v) \<longrightarrow> extract_candidates (JDict d) = [])
   \<and> (\<not> is_list doc \<and> \<not> is_dict doc \<longrightarrow> extract_candidates doc = [])"
proof (intro conjI impI)
  assume a: "\<not> is_list (dict_get d ''relationships_following'')
      \<and> \<not> is_list (dict_get d ''relationships_followers'')
      \<and> \<not> is_list (dict_get d ''following'')
      \<and> \<not> is_list (dict_get d ''followers'')
      \<and> d = before @ (key, JList xs) # rest
      \<and> (\<forall>v \<in> set (dict_values before). \<not> is_list v)"
  then have "\<forall>k \<in> set common_keys. \<not> is_list (dict_get d k)"
    unfolding common_keys_def by (intro ballI) auto
  then have probe: "probe_keys d common_keys = None" by (rule probe_keys_none)
  from a have d: "d = before @ (key, JList xs) # rest"
    and b: "\<forall>v \<in> set (dict_values before). \<not> is_list v" by blast+
  have "first_list_value (dict_values d) = Some xs"
    using first_list_value_hit [OF b, of xs "dict_values rest"]
    by (simp add: d dict_values_def)
  with probe show "map JDict (extract_candidates (JDict d)) = filter is_dict xs"
    by (simp add: dicts_of_filter)
next
  assume a: "\<forall>v \<in> set (dict_values d). \<not> is_list v"
  then have "\<forall>k \<in> set common_keys. \<not> is_list (dict_get d k)"
    by (simp add: dict_get_not_list)
  then have "probe_keys d common_keys = None" by (rule probe_keys_none)
  moreover have "first_list_value (dict_values d) = None"
    using a by (rule first_list_value_none)
  ultimately show "extract_candidates (JDict d) = []" by simp
next
  assume "\<not> is_list doc \<and> \<not> is_dict doc"
  then show "extract_candidates doc = []" by (cases doc) auto
qed

theorem extract_candidates_fallback_witness:
  "\<not> is_list (dict_get [(''count'', JInt 3), (''Following'', JList [JDict [(''username'', JStr ''x'')], JNull]),
                         (''more'', JList [JDict []])] ''following'')
   \<and> extract_candidates (JDict [(''count'', JInt 3),
          (''Following'', JList [JDict [(''username'', JStr ''x'')], JNull]), (''more'', JList [JDict []])])
       = [[(''username'', JStr ''x'')]]
   \<and> extract_candidates (JDict [(''count'', JInt 3), (''name'', JStr ''n'')]) = []
   \<and> extract_candidates (JStr ''text'') = []"
proof -
  let ?xs = "[JDict [(''username'', JStr ''x'')], JNull]"
  let ?d = "[(''count'', JInt 3), (''Following'', JList ?xs), (''more'', JList [JDict []])]"
  let ?e = "[(''count'', JInt 3), (''name'', JStr ''n'')]"
  have h: "\<not> is_list (dict_get ?d ''relationships_following'')
      \<and> \<not> is_list (dict_get ?d ''relationships_followers'')
      \<and> \<not> is_list (dict_get ?d ''following'')
      \<and> \<not> is_list (dict_get ?d ''followers'')
      \<and> ?d = [(''count'', JInt 3)] @ (''Following'', JList ?xs) # [(''more'', JList [JDict []])]
      \<and> (\<forall>v \<in> set (dict_values [(''count'', JInt 3)]). \<not> is_list v)"
    by (simp add: dict_get_def dict_values_def)
  have he: "\<forall>v \<in> set (dict_values ?e). \<not> is_list v" by (simp add: dict_values_def)
  have hs: "\<not> is_list (JStr ''text'') \<and> \<not> is_dict (JStr ''text'')" by simp
  note t = extract_candidates_fallback [where d = ?d and before = "[(''count'', JInt 3)]"
      and key = "''Following''" and xs = ?xs and rest = "[(''more'', JList [JDict []])]"]
  from t h have "map JDict (extract_candidates (JDict ?d)) = filter is_dict ?xs" by blast
  then have r1: "extract_candidates (JDict ?d) = [[(''username'', JStr ''x'')]]"
    by (simp add: map_eq_Cons_conv)
  from extract_candidates_fallback [where d = ?e and doc = "JStr ''text''"] he hs
  have r2: "extract_candidates (JDict ?e) = []" and r3: "extract_candidates (JStr ''text'') = []"
    by blast+
  from h r1 r2 r3 show ?thesis by blast
qed

section \<open>The username of a record\<close>

lemma accepted_None_iff:
  "accepted j = None \<longleftrightarrow> \<not> (\<exists>v. j = JStr v \<and> py_strip v \<noteq> [])"
  by (cases j) (auto simp: truthy_def)

lemma accepted_Some: "j = JStr v \<Longrightarrow> py_strip v \<noteq> [] \<Longrightarrow> accepted j = Some v"
  by (simp add: truthy_def)

lemma string_list_value_None_iff:
  "string_list_value j = None \<longleftrightarrow>
     \<not> (\<exists>first rest v. j = JList (JDict first # rest) \<and> dict_get first ''value'' = JStr v
           \<and> py_strip v \<noteq> [])"
proof (cases j rule: string_list_value.cases)
  case (1 first rest)
  then show ?thesis by (simp add: accepted_None_iff)
qed auto

lemma collect_usernames_one:
  "collect_usernames [item] {||} =
     (case record_value item of None \<Rightarrow> {||} | Some v \<Rightarrow> {|normalize_username v|})"
  by (simp split: option.splits)

text \<open>
  C3 (as amended). The preferred path reads the field named \<open>string_list_data\<close> and no
  other: when it holds a non-empty list whose first element is a dict with a string
  \<open>value\<close> of non-empty trimmed content, that string is the record's value, whatever the
  rest of the list and the flat fields are. When the preferred path yields nothing, the
  flat fields \<open>username\<close> and then \<open>value\<close> are tried, the first accepted string winning;
  when neither is accepted the record has no value. The fifth and sixth conjuncts say
  what yielding nothing and being accepted mean, and the last one that a record with a
  value contributes that value normalized, and a record without one contributes nothing.
\<close>

theorem record_value_paths:
  "(dict_get item ''string_list_data'' = JList (JDict first # rest)
      \<and> dict_get first ''value'' = JStr v \<and> py_strip v \<noteq> []
      \<longrightarrow> record_value item = Some v)
   \<and> (string_list_value (dict_get item ''string_list_data'') = None
      \<and> dict_get item ''username'' = JStr u \<and> py_strip u \<noteq> []
      \<longrightarrow> record_value item = Some u)
   \<and> (string_list_value (dict_get item ''string_list_data'') = None
      \<and> accepted (dict_get item ''username'') = None
      \<and> dict_get item ''value'' = JStr w \<and> py_strip w \<noteq> []
      \<longrightarrow> record_value item = Some w)
   \<and> (string_list_value (dict_get item ''string_list_data'') = None
      \<and> accepted (dict_get item ''username'') = None
      \<and> accepted (dict_get item ''value'') = None
      \<longrightarrow> record_value item = None)
   \<and> (string_list_value j = None \<longleftrightarrow>
        \<not> (\<exists>f r x. j = JList (JDict f # r) \<and> dict_get f ''value'' = JStr x \<and> py_strip x \<noteq> []))
   \<and> (accepted j = None \<longleftrightarrow> \<not> (\<exists>x. j = JStr x \<and> py_strip x \<noteq> []))
   \<and> usernames_of (JList [JDict item]) =
        (case record_value item of None \<Rightarrow> {||} | Some x \<Rightarrow> {|normalize_username x|})"
proof (intro conjI impI)
  assume "dict_get item ''string_list_data'' = JList (JDict first # rest)
      \<and> dict_get first ''value'' = JStr v \<and> py_strip v \<noteq> []"
  then show "record_value item = Some v"
    by (simp add: record_value_def truthy_def)
next
  assume "string_list_value (dict_get item ''string_list_data'') = None
      \<and> dict_get item ''username'' = JStr u \<and> py_strip u \<noteq> []"
  then show "record_value item = Some u"
    by (simp add: record_value_def truthy_def)
next
  assume "string_list_value (dict_get item ''string_list_data'') = None
      \<and> accepted (dict_get item ''username'') = None
      \<and> dict_get item ''value'' = JStr w \<and> py_strip w \<noteq> []"
  then show "record_value item = Some w"
    by (simp add: record_value_def truthy_def)
next
  assume "string_list_value (dict_get item ''string_list_data'') = None
      \<and> accepted (dict_get item ''username'') = None
      \<and> accepted (dict_get item ''value'') = None"
  then show "record_value item = None"
    by (simp add: record_value_def)
next
  show "string_list_value j = None \<longleftrightarrow>
        \<not> (\<exists>f r x. j = JList (JDict f # r) \<and> dict_get f ''value'' = JStr x \<and> py_strip x \<noteq> [])"
    by (rule string_list_value_None_iff)
next
  show "accepted j = None \<longleftrightarrow> \<not> (\<exists>x. j = JStr x \<and> py_strip x \<noteq> [])"
    by (rule accepted_None_iff)
next
  show "usernames_of (JList [JDict item]) =
        (case record_value item of None \<Rightarrow> {||} | Some x \<Rightarrow> {|normalize_username x|})"
    by (simp add: usernames_of_def collect_usernames_one del: collect_usernames.simps)
qed

theorem record_value_paths_witness:
  "record_value [(''string_list_data'', JList [JDict [(''value'', JStr '' Alice '')], JInt 3]),
                 (''username'', JStr ''other'')] = Some '' Alice ''
   \<and> record_value [(''string_list_data'', JList [JDict [(''value'', JStr ''  '')]]),
                 (''value'', JStr ''V''), (''username'', JStr ''U'')] = Some ''U''
   \<and> record_value [(''username'', JStr ''  ''), (''value'', JStr ''V'')] = Some ''V''
   \<and> record_value [(''username'', JInt 3), (''string_list_data'', JList [])] = None"
proof -
  let ?i1 = "[(''string_list_data'', JList [JDict [(''value'', JStr '' Alice '')], JInt 3]),
              (''username'', JStr ''other'')]"
  let ?i2 = "[(''string_list_data'', JList [JDict [(''value'', JStr ''  '')]]),
              (''value'', JStr ''V''), (''username'', JStr ''U'')]"
  let ?i3 = "[(''username'', JStr ''  ''), (''value'', JStr ''V'')]"
  let ?i4 = "[(''username'', JInt 3), (''string_list_data'', JList [])]"
  have h1: "dict_get ?i1 ''string_list_data'' = JList (JDict [(''value'', JStr '' Alice '')] # [JInt 3])
      \<and> dict_get [(''value'', JStr '' Alice '')] ''value'' = JStr '' Alice ''
      \<and> py_strip '' Alice '' \<noteq> []"
    by code_simp
  have h2: "string_list_value (dict_get ?i2 ''string_list_data'') = None
      \<and> dict_get ?i2 ''username'' = JStr ''U'' \<and> py_strip ''U'' \<noteq> []"
    by code_simp
  have h3: "string_list_value (dict_get ?i3 ''string_list_data'') = None
      \<and> accepted (dict_get ?i3 ''username'') = None
      \<and> dict_get ?i3 ''value'' = JStr ''V'' \<and> py_strip ''V'' \<noteq> []"
    by code_simp
  have h4: "string_list_value (dict_get ?i4 ''string_list_data'') = None
      \<and> accepted (dict_get ?i4 ''username'') = None
      \<and> accepted (dict_get ?i4 ''value'') = None"
    by code_simp
  have r1: "record_value ?i1 = Some '' Alice ''"
    using h1 record_value_paths [where item = ?i1 and first = "[(''value'', JStr '' Alice '')]"
        and rest = "[JInt 3]" and v = "'' Alice ''"] by blast
  have r2: "record_value ?i2 = Some ''U''"
    using h2 record_value_paths [where item = ?i2 and u = "''U''"] by blast
  have r3: "record_value ?i3 = Some ''V''"
    using h3 record_value_paths [where item = ?i3 and w = "''V''"] by blast
  have r4: "record_value ?i4 = None"
    using h4 record_value_paths [where item = ?i4] by blast
  from r1 r2 r3 r4 show ?thesis by blast
qed

text \<open>
  C3 (as stated) fails: a record whose field \<open>data\<close> holds a non-empty list of dicts, the
  first with the string \<open>value\<close> \<open>alice\<close>, has no username, since only the field named
  \<open>string_list_data\<close> is read.
\<close>

theorem record_value_other_field:
  "dict_get [(''data'', JList [JDict [(''value'', JStr ''alice'')]])] ''data''
     = JList [JDict [(''value'', JStr ''alice'')]]
   \<and> dict_get [(''value'', JStr ''alice'')] ''value'' = JStr ''alice''
   \<and> py_strip ''alice'' = ''alice''
   \<and> record_value [(''data'', JList [JDict [(''value'', JStr ''alice'')]])] = None
   \<and> usernames_of (JList [JDict [(''data'', JList [JDict [(''value'', JStr ''alice'')]])]]) = {||}"
  by code_simp

text \<open>
  C10. The string \<open>@\<close> is not empty after trimming, so it is accepted, and it normalizes
  to the empty string: the set \<open>load_usernames\<close> returns then holds the empty string.
\<close>

theorem empty_username_accepted:
  "py_strip ''@'' = ''@''
   \<and> record_value [(''string_list_data'', JList [JDict [(''value'', JStr ''@'')]])] = Some ''@''
   \<and> normalize_username ''@'' = []
   \<and> usernames_of (JList [JDict [(''string_list_data'', JList [JDict [(''value'', JStr ''@'')]])]]) = {|[]|}
   \<and> load_usernames (\<lambda>text. Some (JList [JDict [(''username'', JStr ''@'')]]))
        [''following.json'' \<mapsto> ''text''] ''following.json'' = Inr {|[]|}"
  by code_simp

section \<open>The difference\<close>

lemma string_less_lexord:
  "((a :: string) < b) = ((a, b) \<in> lexord {(c, d). (of_char c :: nat) < of_char d})"
  by (simp add: list_less_def less_char_def)

text \<open>
  C7. \<open>sorted(following - followers)\<close> holds exactly the elements of \<open>following\<close> that are
  not in \<open>followers\<close>, each once, in strictly ascending lexicographic order of code
  points; for \<open>{a, b, c}\<close> and \<open>{b}\<close> it is \<open>[a, c]\<close>.
\<close>

theorem not_following_back_sorted_difference:
  "set (not_following_back following followers) = fset following - fset followers
   \<and> sorted_wrt (\<lambda>a b. (a, b) \<in> lexord {(c, d). (of_char c :: nat) < of_char d})
        (not_following_back following followers)
   \<and> not_following_back {|''a'', ''b'', ''c''|} {|''b''|} = [''a'', ''c'']"
proof -
  let ?r = "not_following_back following followers"
  have r: "?r = sorted_list_of_set (fset following - fset followers)"
    by (simp add: not_following_back_def sorted_list_of_fset.rep_eq)
  have fin: "finite (fset following - fset followers)" by simp
  have s: "set ?r = fset following - fset followers"
    unfolding r using fin by simp
  have "sorted_wrt (<) ?r"
    unfolding r by (rule strict_sorted_list_of_set)
  moreover have "((<) :: string \<Rightarrow> string \<Rightarrow> bool)
      = (\<lambda>a b. (a, b) \<in> lexord {(c, d). (of_char c :: nat) < of_char d})"
    by (intro ext) (rule string_less_lexord)
  ultimately have o: "sorted_wrt (\<lambda>a b. (a, b) \<in> lexord {(c, d). (of_char c :: nat) < of_char d}) ?r"
    by (rule subst [where P = "\<lambda>R. sorted_wrt R ?r", rotated])
  have e: "not_following_back {|''a'', ''b'', ''c''|} {|''b''|} = [''a'', ''c'']"
    by code_simp
  from s o e show ?thesis by blast
qed

section \<open>The program\<close>

lemma usernames_of_following_example:
  "usernames_of (JList [JDict [(''string_list_data'', JList [JDict [(''value'', JStr ''Alice'')]])],
                        JDict [(''string_list_data'', JList [JDict [(''value'', JStr ''bob'')]])]])
     = {|''alice'', ''bob''|}"
  by code_simp

lemma usernames_of_followers_example:
  "usernames_of (JList [JDict [(''string_list_data'', JList [JDict [(''value'', JStr ''BOB'')]])]])
     = {|''bob''|}"
  by code_simp

lemma not_following_back_example:
  "not_following_back {|''alice'', ''bob''|} {|''bob''|} = [''alice'']"
  by code_simp

text \<open>
  C8. When \<open>following.json\<close> and \<open>followers.json\<close> parse to the two documents of the
  scenario, \<open>load_usernames\<close> gives \<open>{alice, bob}\<close> and \<open>{bob}\<close>, the difference is
  \<open>[alice]\<close>, and \<open>main\<close> returns after writing the header row and the row \<open>alice\<close> to
  \<open>not_following_back.csv\<close>.
\<close>

theorem end_to_end_example:
  assumes following: "fs ''following.json'' = Some following_text"
    "loads following_text =
       Some (JList [JDict [(''string_list_data'', JList [JDict [(''value'', JStr ''Alice'')]])],
                    JDict [(''string_list_data'', JList [JDict [(''value'', JStr ''bob'')]])]])"
    and followers: "fs ''followers.json'' = Some followers_text"
    "loads followers_text =
       Some (JList [JDict [(''string_list_data'', JList [JDict [(''value'', JStr ''BOB'')]])]])"
  shows "load_usernames loads fs ''following.json'' = Inr {|''alice'', ''bob''|}
    \<and> load_usernames loads fs ''followers.json'' = Inr {|''bob''|}
    \<and> not_following_back {|''alice'', ''bob''|} {|''bob''|} = [''alice'']
    \<and> main loads writerow fs
        = (Inr (), fs(''not_following_back.csv'' \<mapsto> writerow [''username''] @ writerow [''alice'']))"
proof -
  have l1: "load_usernames loads fs ''following.json'' = Inr {|''alice'', ''bob''|}"
    by (simp only: load_usernames_def following option.case usernames_of_following_example)
  have l2: "load_usernames loads fs ''followers.json'' = Inr {|''bob''|}"
    by (simp only: load_usernames_def followers option.case usernames_of_followers_example)
  have m: "main loads writerow fs
        = (Inr (), fs(''not_following_back.csv'' \<mapsto> writerow [''username''] @ writerow [''alice'']))"
    using following(1) followers(1)
    by (simp add: main_def DEFAULT_FOLLOWERS_FILE_def DEFAULT_FOLLOWING_FILE_def OUTPUT_FILE_def
        l1 l2 not_following_back_example write_csv_def)
  from l1 l2 m not_following_back_example show ?thesis by blast
qed

theorem end_to_end_example_witness:
  "main (\<lambda>text. if text = ''A'' then
                  Some (JList [JDict [(''string_list_data'', JList [JDict [(''value'', JStr ''Alice'')]])],
                               JDict [(''string_list_data'', JList [JDict [(''value'', JStr ''bob'')]])]])
                else if text = ''B'' then
                  Some (JList [JDict [(''string_list_data'', JList [JDict [(''value'', JStr ''BOB'')]])]])
                else None)
        (\<lambda>row. concat row @ [CHR 0x0D, CHR 0x0A])
        [''following.json'' \<mapsto> ''A'', ''followers.json'' \<mapsto> ''B'']
     = (Inr (), [''following.json'' \<mapsto> ''A'', ''followers.json'' \<mapsto> ''B'',
                 ''not_following_back.csv'' \<mapsto>
                    ''username'' @ [CHR 0x0D, CHR 0x0A] @ ''alice'' @ [CHR 0x0D, CHR 0x0A]])"
proof -
  let ?loads = "\<lambda>text. if text = ''A'' then
                  Some (JList [JDict [(''string_list_data'', JList [JDict [(''value'', JStr ''Alice'')]])],
                               JDict [(''string_list_data'', JList [JDict [(''value'', JStr ''bob'')]])]])
                else if text = ''B'' then
                  Some (JList [JDict [(''string_list_data'', JList [JDict [(''value'', JStr ''BOB'')]])]])
                else None"
  let ?wr = "\<lambda>row :: string list. concat row @ [CHR 0x0D, CHR 0x0A]"
  let ?fs = "[''following.json'' \<mapsto> ''A'', ''followers.json'' \<mapsto> ''B''] :: files"
  have h1: "?fs ''following.json'' = Some ''A''" by simp
  have h2: "?loads ''A'' =
       Some (JList [JDict [(''string_list_data'', JList [JDict [(''value'', JStr ''Alice'')]])],
                    JDict [(''string_list_data'', JList [JDict [(''value'', JStr ''bob'')]])]])"
    by simp
  have h3: "?fs ''followers.json'' = Some ''B''" by simp
  have h4: "?loads ''B'' =
       Some (JList [JDict [(''string_list_data'', JList [JDict [(''value'', JStr ''BOB'')]])]])"
    by simp
  from end_to_end_example [of ?fs "''A''" ?loads "''B''" ?wr, OF h1 h2 h3 h4]
  show ?thesis by simp
qed

lemma main_missing_followers:
  "fs ''followers.json'' = None \<Longrightarrow>
     main loads writerow fs
       = (Inl (SystemExit ''Missing followers.json. Put it next to this script.''), fs)"
  by (simp add: main_def DEFAULT_FOLLOWERS_FILE_def missing_message_def)

lemma main_missing_following:
  "fs ''followers.json'' \<noteq> None \<Longrightarrow> fs ''following.json'' = None \<Longrightarrow>
     main loads writerow fs
       = (Inl (SystemExit ''Missing following.json. Put it next to this script.''), fs)"
  by (simp add: main_def DEFAULT_FOLLOWERS_FILE_def DEFAULT_FOLLOWING_FILE_def missing_message_def)

text \<open>
  C9. When \<open>followers.json\<close> is absent, or it is present and \<open>following.json\<close> is absent,
  \<open>main\<close> ends in \<open>SystemExit\<close> with the message that names the missing file, whatever
  the parser and the other files are; the exit status is not 0 and the files, the
  output file among them, are as they were.
\<close>

theorem main_missing_input:
  "(fs ''followers.json'' = None \<longrightarrow>
      main loads writerow fs
        = (Inl (SystemExit ''Missing followers.json. Put it next to this script.''), fs))
   \<and> (fs ''followers.json'' \<noteq> None \<and> fs ''following.json'' = None \<longrightarrow>
      main loads writerow fs
        = (Inl (SystemExit ''Missing following.json. Put it next to this script.''), fs))
   \<and> (fs ''followers.json'' = None \<or> fs ''following.json'' = None \<longrightarrow>
      exit_status (fst (main loads writerow fs)) \<noteq> 0
      \<and> snd (main loads writerow fs) = fs
      \<and> snd (main loads writerow fs) ''not_following_back.csv'' = fs ''not_following_back.csv'')"
proof (intro conjI impI)
  assume "fs ''followers.json'' = None"
  then show "main loads writerow fs
        = (Inl (SystemExit ''Missing followers.json. Put it next to this script.''), fs)"
    by (rule main_missing_followers)
next
  assume "fs ''followers.json'' \<noteq> None \<and> fs ''following.json'' = None"
  then show "main loads writerow fs
        = (Inl (SystemExit ''Missing following.json. Put it next to this script.''), fs)"
    by (simp add: main_missing_following)
next
  assume a: "fs ''followers.json'' = None \<or> fs ''following.json'' = None"
  have "\<exists>msg. main loads writerow fs = (Inl (SystemExit msg), fs)"
  proof (cases "fs ''followers.json'' = None")
    case True
    then show ?thesis by (simp add: main_missing_followers)
  next
    case False
    with a have "fs ''following.json'' = None" by simp
    with False show ?thesis by (simp add: main_missing_following)
  qed
  then obtain msg where m: "main loads writerow fs = (Inl (SystemExit msg), fs)" ..
  show "exit_status (fst (main loads writerow fs)) \<noteq> 0" by (simp add: m)
  show "snd (main loads writerow fs) = fs" by (simp add: m)
  show "snd (main loads writerow fs) ''not_following_back.csv'' = fs ''not_following_back.csv''"
    by (simp add: m)
qed

theorem main_missing_input_witness:
  "main (\<lambda>text. Some (JList [])) (\<lambda>row. concat row) [''following.json'' \<mapsto> ''[]'']
     = (Inl (SystemExit ''Missing followers.json. Put it next to this script.''),
        [''following.json'' \<mapsto> ''[]''])
   \<and> main (\<lambda>text. Some (JList [])) (\<lambda>row. concat row)
        [''followers.json'' \<mapsto> ''[]'', ''not_following_back.csv'' \<mapsto> ''old'']
     = (Inl (SystemExit ''Missing following.json. Put it next to this script.''),
        [''followers.json'' \<mapsto> ''[]'', ''not_following_back.csv'' \<mapsto> ''old''])
   \<and> exit_status (fst (main (\<lambda>text. Some (JList [])) (\<lambda>row. concat row)
        [''followers.json'' \<mapsto> ''[]'', ''not_following_back.csv'' \<mapsto> ''old''])) = 1
   \<and> snd (main (\<lambda>text. Some (JList [])) (\<lambda>row. concat row)
        [''followers.json'' \<mapsto> ''[]'', ''not_following_back.csv'' \<mapsto> ''old''])
        ''not_following_back.csv'' = Some ''old''"
proof -
  let ?loads = "\<lambda>text :: string. Some (JList [])"
  let ?wr = "\<lambda>row :: string list. concat row"
  let ?f1 = "[''following.json'' \<mapsto> ''[]''] :: files"
  let ?f2 = "[''followers.json'' \<mapsto> ''[]'', ''not_following_back.csv'' \<mapsto> ''old''] :: files"
  have h1: "?f1 ''followers.json'' = None" by simp
  have h2: "?f2 ''followers.json'' \<noteq> None \<and> ?f2 ''following.json'' = None" by simp
  note t1 = main_missing_input [where fs = ?f1 and loads = ?loads and writerow = ?wr]
  note t2 = main_missing_input [where fs = ?f2 and loads = ?loads and writerow = ?wr]
  from t1 h1 have r1: "main ?loads ?wr ?f1
     = (Inl (SystemExit ''Missing followers.json. Put it next to this script.''), ?f1)"
    by blast
  from t2 h2 have r2: "main ?loads ?wr ?f2
     = (Inl (SystemExit ''Missing following.json. Put it next to this script.''), ?f2)"
    by blast
  have r3: "exit_status (fst (main ?loads ?wr ?f2)) = 1" by (simp only: r2 fst_conv exit_status.simps)
  have r4: "snd (main ?loads ?wr ?f2) ''not_following_back.csv'' = Some ''old''"
    unfolding r2 by simp
  from r1 r2 r3 r4 show ?thesis by blast
qed

end
